theory Spec2Isabelle
  imports Main
begin

section \<open>Strings, slices and the library functions the cookie code calls\<close>

text \<open>
  A Go string is a sequence of bytes; \<^typ>\<open>string\<close> is a list of 8-bit characters.
  \<open>byte b\<close> is the numeric value of a byte, used wherever the source compares bytes
  with \<open><=\<close> and \<open><\<close>.
\<close>

definition byte :: "char \<Rightarrow> nat" where
  "byte b = of_char b"

text \<open>
  A Go slice is either nil or a (possibly empty) sequence of elements; the two are
  different values, and the source returns \<open>[]*Cookie{}\<close> (empty, not nil).
\<close>

datatype 'a slice = NilSlice | Slice "'a list"

fun elems :: "'a slice \<Rightarrow> 'a list" where
  "elems NilSlice = []"
| "elems (Slice xs) = xs"

text \<open>
  \<open>textproto.TrimString\<close> (Go standard library): drops leading, then trailing, bytes
  that are space, tab, line feed or carriage return.
\<close>

definition isASCIISpace :: "char \<Rightarrow> bool" where
  "isASCIISpace b = (b = CHR '' '' \<or> b = CHR 0x09 \<or> b = CHR 0x0A \<or> b = CHR 0x0D)"

definition TrimString :: "string \<Rightarrow> string" where
  "TrimString s = rev (dropWhile isASCIISpace (rev (dropWhile isASCIISpace s)))"

text \<open>
  \<open>strings.Cut(s, sep)\<close> for a one-byte separator: the text before the first
  occurrence, the text after it, and whether it was found; \<open>(s, "", false)\<close> when absent.
\<close>

definition Cut :: "string \<Rightarrow> char \<Rightarrow> string \<times> string \<times> bool" where
  "Cut s sep = (takeWhile (\<lambda>c. c \<noteq> sep) s, drop 1 (dropWhile (\<lambda>c. c \<noteq> sep) s), sep \<in> set s)"

text \<open>\<open>strings.ContainsAny(s, chars)\<close>: some byte of \<open>s\<close> is one of \<open>chars\<close> (ASCII sets).\<close>

definition ContainsAny :: "string \<Rightarrow> string \<Rightarrow> bool" where
  "ContainsAny s chars = list_ex (\<lambda>c. c \<in> set chars) s"

section \<open>cookie.go\<close>

text \<open>
  The fields of \<open>Cookie\<close> (an alias of the wrapped library's struct) that the code of
  this file writes or that the specification names. A composite literal leaves every
  field it does not mention at its zero value.
\<close>

datatype SameSite = SameSiteUnset | SameSiteDefaultMode | SameSiteLaxMode
  | SameSiteStrictMode | SameSiteNoneMode

record Cookie =
  Name :: string
  Value :: string
  Quoted :: bool
  Path :: string
  Domain :: string
  RawExpires :: string
  MaxAge :: int
  Secure :: bool
  HttpOnly :: bool
  SameSite_of :: SameSite
  Raw :: string
  Unparsed :: "string list"

definition newCookie :: "string \<Rightarrow> string \<Rightarrow> bool \<Rightarrow> Cookie" where
  "newCookie name val quoted =
     \<lparr>Name = name, Value = val, Quoted = quoted, Path = [], Domain = [], RawExpires = [],
      MaxAge = 0, Secure = False, HttpOnly = False, SameSite_of = SameSiteUnset,
      Raw = [], Unparsed = []\<rparr>"

datatype error = errBlankCookie | errEqualNotFoundInCookie | errInvalidCookieName
  | errInvalidCookieValue

text \<open>
  \<open>ParseSetCookie\<close> as the source has it: its body is a call of itself with the same
  argument. \<open>None\<close> is the run that never returns.
\<close>

partial_function (option) ParseSetCookie :: "string \<Rightarrow> (error + Cookie) option" where
  "ParseSetCookie line = ParseSetCookie line"

text \<open>\<open>validCookieValueByte\<close>.\<close>

definition validCookieValueByte :: "char \<Rightarrow> bool" where
  "validCookieValueByte b =
     (0x20 \<le> byte b \<and> byte b < 0x7f \<and> b \<noteq> CHR 0x22 \<and> b \<noteq> CHR '';'' \<and> b \<noteq> CHR 0x5C)"

definition validCookiePathByte :: "char \<Rightarrow> bool" where
  "validCookiePathByte b = (0x20 \<le> byte b \<and> byte b < 0x7f \<and> b \<noteq> CHR '';'')"

text \<open>
  \<open>sanitizeOrWarn\<close>. The first loop looks for an invalid byte and stops at the first
  one, where it writes one line to the log; the model returns the log lines (the
  offending byte and the field name) next to the string. The second loop, run only
  when an invalid byte was found, appends the valid bytes to \<open>buf\<close>.
\<close>

fun firstInvalid :: "(char \<Rightarrow> bool) \<Rightarrow> string \<Rightarrow> char option" where
  "firstInvalid valid [] = None"
| "firstInvalid valid (b # v) = (if valid b then firstInvalid valid v else Some b)"

fun keepValid :: "(char \<Rightarrow> bool) \<Rightarrow> string \<Rightarrow> string \<Rightarrow> string" where
  "keepValid valid [] buf = buf"
| "keepValid valid (b # v) buf =
     (if valid b then keepValid valid v (buf @ [b]) else keepValid valid v buf)"

definition sanitizeOrWarn ::
  "string \<Rightarrow> (char \<Rightarrow> bool) \<Rightarrow> string \<Rightarrow> string \<times> (char \<times> string) list" where
  "sanitizeOrWarn fieldName valid v =
     (case firstInvalid valid v of
        None \<Rightarrow> (v, [])
      | Some b \<Rightarrow> (keepValid valid v [], [(b, fieldName)]))"

text \<open>\<open>sanitizeCookieValue\<close>, with the log lines of its call of \<open>sanitizeOrWarn\<close>.\<close>

definition sanitizeCookieValue :: "string \<Rightarrow> bool \<Rightarrow> string \<times> (char \<times> string) list" where
  "sanitizeCookieValue v0 quoted =
     (let (v, lg) = sanitizeOrWarn ''Cookie.Value'' validCookieValueByte v0 in
      if length v = 0 then (v, lg)
      else if ContainsAny v '' ,'' \<or> quoted then ([CHR 0x22] @ v @ [CHR 0x22], lg)
      else (v, lg))"

definition sanitizeCookiePath :: "string \<Rightarrow> string \<times> (char \<times> string) list" where
  "sanitizeCookiePath v = sanitizeOrWarn ''Cookie.Path'' validCookiePathByte v"

text \<open>
  \<open>parseCookieValue\<close>: the triple \<open>(value, quoted, ok)\<close>. The indexing \<open>raw[0]\<close> and
  \<open>raw[len(raw)-1]\<close> is guarded by \<open>len(raw) > 1\<close>, and \<open>raw[1 : len(raw)-1]\<close> is then
  the string without its first and last byte.
\<close>

fun allValueBytes :: "string \<Rightarrow> bool" where
  "allValueBytes [] = True"
| "allValueBytes (b # raw) = (if \<not> validCookieValueByte b then False else allValueBytes raw)"

definition parseCookieValue :: "string \<Rightarrow> bool \<Rightarrow> string \<times> bool \<times> bool" where
  "parseCookieValue raw0 allowDoubleQuote =
     (let (raw, quoted) =
        (if allowDoubleQuote \<and> length raw0 > 1 \<and> raw0 ! 0 = CHR 0x22
            \<and> raw0 ! (length raw0 - 1) = CHR 0x22
         then (take (length raw0 - 1 - 1) (drop 1 raw0), True)
         else (raw0, False))
      in if allValueBytes raw then (raw, quoted, True) else ([], quoted, False))"

text \<open>
  Modelled from the spec: \<open>isNotToken\<close> is called by \<open>isCookieNameValid\<close> but is not
  under src/. The specification gives the token grammar: ASCII only, no control
  characters, none of the separators
  \<open>( ) < > @ , ; : \ " / [ ] ? = { }\<close>, space and tab.
\<close>

definition separators :: "char list" where
  "separators = ''()<>@,;:/[]?={} '' @ [CHR 0x5C, CHR 0x22, CHR 0x09]"

definition isNotToken :: "char \<Rightarrow> bool" where
  "isNotToken r = (\<not> (0x20 \<le> byte r \<and> byte r < 0x7f \<and> r \<notin> set separators))"

text \<open>
  \<open>strings.IndexFunc(s, f)\<close>: the index of the first position where \<open>f\<close> holds, or \<open>-1\<close>.
  The library decodes runes; a byte below \<open>0x80\<close> is its own rune, and every rune that
  starts at a byte from \<open>0x80\<close> up is outside ASCII, where \<open>isNotToken\<close> holds as it does
  of that byte, so the search by bytes stops at the same index.
\<close>

fun IndexFunc_from :: "int \<Rightarrow> string \<Rightarrow> (char \<Rightarrow> bool) \<Rightarrow> int" where
  "IndexFunc_from i [] f = -1"
| "IndexFunc_from i (c # s) f = (if f c then i else IndexFunc_from (i + 1) s f)"

definition IndexFunc :: "string \<Rightarrow> (char \<Rightarrow> bool) \<Rightarrow> int" where
  "IndexFunc s f = IndexFunc_from 0 s f"

definition isCookieNameValid :: "string \<Rightarrow> bool" where
  "isCookieNameValid raw = (if raw = [] then False else IndexFunc raw isNotToken < 0)"

text \<open>
  \<open>Header\<close> is a map from field names to lists of lines; indexing a Go map at an
  absent key gives the nil slice, of length 0.
\<close>

type_synonym Header = "string \<rightharpoonup> string list"

definition header_lines :: "Header \<Rightarrow> string \<Rightarrow> string list" where
  "header_lines h k = (case h k of None \<Rightarrow> [] | Some ls \<Rightarrow> ls)"

text \<open>
  \<open>readCookies\<close>. \<open>readCookies_body\<close> is one pass through the body of the inner loop
  for the segment \<open>part\<close>: each \<open>continue\<close> leaves \<open>cookies\<close> as it was, and the last
  statement appends one cookie. \<open>readCookies_line\<close> is the inner loop
  \<open>for len(line) > 0\<close>, \<open>readCookies_lines\<close> the loop over the lines. The capacity
  given to \<open>make\<close> has no effect on the value.
\<close>

definition readCookies_body :: "string \<Rightarrow> string \<Rightarrow> Cookie list \<Rightarrow> Cookie list" where
  "readCookies_body part0 filter' cookies =
     (let part = TrimString part0 in
      if part = [] then cookies
      else case Cut part CHR ''='' of (name0, val0, _) \<Rightarrow>
        let name = TrimString name0 in
        if \<not> isCookieNameValid name then cookies
        else if filter' \<noteq> [] \<and> filter' \<noteq> name then cookies
        else case parseCookieValue val0 True of (val, quoted, ok) \<Rightarrow>
          if \<not> ok then cookies
          else cookies @ [newCookie name val quoted])"

function readCookies_line :: "string \<Rightarrow> string \<Rightarrow> Cookie list \<Rightarrow> Cookie list" where
  "readCookies_line line filter' cookies =
     (if length line > 0
      then readCookies_line (fst (snd (Cut line CHR '';''))) filter'
             (readCookies_body (fst (Cut line CHR '';'')) filter' cookies)
      else cookies)"
  by pat_completeness auto
termination
proof (relation "measure (\<lambda>(line, filter', cookies). length line)")
  show "wf (measure (\<lambda>(line, filter', cookies). length line))" by simp
next
  fix line :: string and filter' :: string and cookies :: "Cookie list"
  assume pos: "0 < length line"
  have "length (dropWhile (\<lambda>c. c \<noteq> CHR '';'') line) \<le> length line"
    by (rule length_dropWhile_le)
  with pos have "length (dropWhile (\<lambda>c. c \<noteq> CHR '';'') line) - 1 < length line"
    by arith
  then show "((fst (snd (Cut line CHR '';'')), filter',
           readCookies_body (fst (Cut line CHR '';'')) filter' cookies), line, filter', cookies)
         \<in> measure (\<lambda>(line, filter', cookies). length line)"
    by (simp add: Cut_def)
qed

declare readCookies_line.simps [simp del]

fun readCookies_lines :: "string list \<Rightarrow> string \<Rightarrow> Cookie list \<Rightarrow> Cookie list" where
  "readCookies_lines [] filter' cookies = cookies"
| "readCookies_lines (line # lines) filter' cookies =
     readCookies_lines lines filter' (readCookies_line (TrimString line) filter' cookies)"

definition readCookies :: "Header \<Rightarrow> string \<Rightarrow> Cookie slice" where
  "readCookies h filter' =
     (let lines = header_lines h ''Cookie'' in
      if length lines = 0 then Slice []
      else Slice (readCookies_lines lines filter' []))"

text \<open>
  \<open>isCookieDomainName\<close>. \<open>isCookieDomainName_loop\<close> is the \<open>for\<close> loop over the bytes
  with its three variables \<open>last\<close> (here \<open>last'\<close>), \<open>ok\<close> and \<open>partlen\<close>, followed by the test after
  the loop; the \<open>switch\<close> tries the cases in the order letter, digit, dash, dot and
  falls to \<open>default\<close> otherwise. \<open>partlen\<close> never exceeds the length of the string, at
  most 255, so the machine integer does not wrap.
\<close>

definition isLetter :: "char \<Rightarrow> bool" where
  "isLetter c = (byte CHR ''a'' \<le> byte c \<and> byte c \<le> byte CHR ''z''
                 \<or> byte CHR ''A'' \<le> byte c \<and> byte c \<le> byte CHR ''Z'')"

definition isDigit :: "char \<Rightarrow> bool" where
  "isDigit c = (byte CHR ''0'' \<le> byte c \<and> byte c \<le> byte CHR ''9'')"

fun isCookieDomainName_loop :: "char \<Rightarrow> bool \<Rightarrow> nat \<Rightarrow> string \<Rightarrow> bool" where
  "isCookieDomainName_loop last' ok partlen [] =
     (if last' = CHR ''-'' \<or> partlen > 63 then False else ok)"
| "isCookieDomainName_loop last' ok partlen (c # s) =
     (if isLetter c then isCookieDomainName_loop c True (partlen + 1) s
      else if isDigit c then isCookieDomainName_loop c ok (partlen + 1) s
      else if c = CHR ''-'' then
        (if last' = CHR ''.'' then False
         else isCookieDomainName_loop c ok (partlen + 1) s)
      else if c = CHR ''.'' then
        (if last' = CHR ''.'' \<or> last' = CHR ''-'' then False
         else if partlen > 63 \<or> partlen = 0 then False
         else isCookieDomainName_loop c ok 0 s)
      else False)"

definition isCookieDomainName :: "string \<Rightarrow> bool" where
  "isCookieDomainName s0 =
     (if length s0 = 0 then False
      else if length s0 > 255 then False
      else let s = (if s0 ! 0 = CHR ''.'' then drop 1 s0 else s0) in
        isCookieDomainName_loop CHR ''.'' False 0 s)"

text \<open>
  \<open>net.ParseIP\<close> (Go standard library), as far as \<open>validCookieDomain\<close> observes it:
  whether the result is non-nil. The library scans for the first \<open>.\<close>, \<open>:\<close> or \<open>%\<close>:
  a dot sends the whole string to the IPv4 parser, a colon to the IPv6 parser, and a
  percent sign or none of the three is an error. An address with a zone is refused.

  The IPv4 parser reads decimal fields separated by dots: no field with a leading
  zero, none above 255, no empty field, exactly four fields.
\<close>

fun parseIPv4Fields :: "string \<Rightarrow> bool \<Rightarrow> char \<Rightarrow> nat \<Rightarrow> nat \<Rightarrow> nat \<Rightarrow> bool" where
  "parseIPv4Fields [] first prev val pos digLen = (\<not> pos < 3)"
| "parseIPv4Fields (c # s) first prev val pos digLen =
     (if isDigit c then
        (if digLen = 1 \<and> val = 0 then False
         else if val * 10 + (byte c - byte CHR ''0'') > 255 then False
         else parseIPv4Fields s False c (val * 10 + (byte c - byte CHR ''0'')) pos (digLen + 1))
      else if c = CHR ''.'' then
        (if first \<or> s = [] \<or> prev = CHR ''.'' then False
         else if pos = 3 then False
         else parseIPv4Fields s False c 0 (pos + 1) 0)
      else False)"

definition parseIPv4 :: "string \<Rightarrow> bool" where
  "parseIPv4 s = parseIPv4Fields s True CHR ''.'' 0 0 0"

text \<open>
  The IPv6 parser: an optional leading \<open>::\<close>, then groups of one to four hexadecimal
  digits separated by colons, at most one \<open>::\<close>, and optionally a trailing dotted
  IPv4 address in place of the last two groups. \<open>i\<close> counts the bytes of the address
  filled so far and \<open>ellipsis\<close> is the position of the \<open>::\<close>, or \<open>-1\<close>.
  \<open>hexField\<close> is the scan of one group and gives the number of digits read, or \<open>None\<close>
  at a fifth digit; the value of the group is left out, since four digits cannot
  exceed \<open>0xFFFF\<close> and only acceptance is observed.
\<close>

definition isHexDigit :: "char \<Rightarrow> bool" where
  "isHexDigit c = (isDigit c
     \<or> byte CHR ''a'' \<le> byte c \<and> byte c \<le> byte CHR ''f''
     \<or> byte CHR ''A'' \<le> byte c \<and> byte c \<le> byte CHR ''F'')"

fun hexField :: "string \<Rightarrow> nat \<Rightarrow> nat option" where
  "hexField [] off = Some off"
| "hexField (c # s) off =
     (if isHexDigit c then (if off > 3 then None else hexField s (off + 1))
      else Some off)"

definition parseIPv6_finish :: "string \<Rightarrow> nat \<Rightarrow> int \<Rightarrow> bool" where
  "parseIPv6_finish s i ellipsis =
     (if length s \<noteq> 0 then False
      else if i < 16 then (if ellipsis < 0 then False else True)
      else if ellipsis \<ge> 0 then False
      else True)"

function parseIPv6_loop :: "string \<Rightarrow> nat \<Rightarrow> int \<Rightarrow> bool" where
  "parseIPv6_loop s i ellipsis =
     (if i < 16 then
        (case hexField s 0 of
           None \<Rightarrow> False
         | Some off \<Rightarrow>
             if off = 0 then False
             else if off < length s \<and> s ! off = CHR ''.'' then
               (if ellipsis < 0 \<and> i \<noteq> 12 then False
                else if i + 4 > 16 then False
                else if \<not> parseIPv4 s then False
                else parseIPv6_finish [] (i + 4) ellipsis)
             else if length (drop off s) = 0 then parseIPv6_finish [] (i + 2) ellipsis
             else if drop off s ! 0 \<noteq> CHR '':'' then False
             else if length (drop off s) = 1 then False
             else if drop (off + 1) s ! 0 = CHR '':'' then
               (if ellipsis \<ge> 0 then False
                else if length (drop (off + 2) s) = 0
                  then parseIPv6_finish [] (i + 2) (int (i + 2))
                else parseIPv6_loop (drop (off + 2) s) (i + 2) (int (i + 2)))
             else parseIPv6_loop (drop (off + 1) s) (i + 2) ellipsis)
      else parseIPv6_finish s i ellipsis)"
  by pat_completeness auto
termination
  by (relation "measure (\<lambda>(s, i, ellipsis). 16 - i)") auto

declare parseIPv6_loop.simps [simp del]

text \<open>\<open>parseIPv6\<close> gives the zone of the address it accepted, \<open>None\<close> for an error.\<close>

definition parseIPv6 :: "string \<Rightarrow> string option" where
  "parseIPv6 in0 =
     (case Cut in0 CHR ''%'' of (s0, zone, found) \<Rightarrow>
        if found \<and> zone = [] then None
        else if length s0 \<ge> 2 \<and> s0 ! 0 = CHR '':'' \<and> s0 ! 1 = CHR '':'' then
          (if length (drop 2 s0) = 0 then Some zone
           else if parseIPv6_loop (drop 2 s0) 0 0 then Some zone else None)
        else if parseIPv6_loop s0 0 (- 1) then Some zone else None)"

fun ParseAddr_from :: "string \<Rightarrow> string \<Rightarrow> string option" where
  "ParseAddr_from s [] = None"
| "ParseAddr_from s (c # rest) =
     (if c = CHR ''.'' then (if parseIPv4 s then Some [] else None)
      else if c = CHR '':'' then parseIPv6 s
      else if c = CHR ''%'' then None
      else ParseAddr_from s rest)"

definition ParseIP_nonnil :: "string \<Rightarrow> bool" where
  "ParseIP_nonnil s = (case ParseAddr_from s s of None \<Rightarrow> False | Some zone \<Rightarrow> zone = [])"

text \<open>\<open>validCookieDomain\<close>; \<open>strings.Contains(v, ":")\<close> is membership of the byte.\<close>

definition validCookieDomain :: "string \<Rightarrow> bool" where
  "validCookieDomain v =
     (if isCookieDomainName v then True
      else if ParseIP_nonnil v \<and> \<not> (CHR '':'' \<in> set v) then True
      else False)"

section \<open>The grammar of the specification\<close>

text \<open>
  The definitions of this section are not translations of code: they are what the
  code is compared with. Those named \<open>claimed_\<close> follow the words of the
  specification; the others describe a line, a segment or a domain name without iteration
  or accumulators.

  \<open>split_on sep s\<close> is the list of the pieces of \<open>s\<close> between the occurrences of
  \<open>sep\<close>: one piece more than there are separators, empty pieces included.
\<close>

fun split_on :: "char \<Rightarrow> string \<Rightarrow> string list" where
  "split_on sep [] = [[]]"
| "split_on sep (c # s) =
     (if c = sep then [] # split_on sep s
      else (c # hd (split_on sep s)) # tl (split_on sep s))"

text \<open>
  The cookie of a segment of a \<open>Cookie\<close> line as the loop treats it, which is what the
  amended statements below speak of. The segment is trimmed and must not be empty;
  the name is the trimmed text before the first \<open>=\<close> and must be a valid token, equal
  to the filter when there is one; the value part is the text after the first \<open>=\<close>,
  and it is empty when the segment has no \<open>=\<close>; the value is the value part without
  its double quotes when it is longer than one byte and begins and ends with one; and
  every byte of the value must be one that \<open>validCookieValueByte\<close> accepts, the space
  among them. This differs from the steps of the specification in two places: there a
  segment without \<open>=\<close> is discarded, and the space is outside the cookie-octet range.
\<close>

definition segment_cookie :: "string \<Rightarrow> string \<Rightarrow> Cookie option" where
  "segment_cookie filter' seg =
     (let part = TrimString seg;
          name = TrimString (takeWhile (\<lambda>c. c \<noteq> CHR ''='') part);
          raw = drop 1 (dropWhile (\<lambda>c. c \<noteq> CHR ''='') part);
          quoted = (length raw > 1 \<and> hd raw = CHR 0x22 \<and> last raw = CHR 0x22);
          val = (if quoted then butlast (tl raw) else raw)
      in if part \<noteq> [] \<and> isCookieNameValid name \<and> (filter' = [] \<or> filter' = name)
            \<and> (\<forall>b\<in>set val. validCookieValueByte b)
         then Some (newCookie name val quoted) else None)"

definition line_cookies :: "string \<Rightarrow> string \<Rightarrow> Cookie list" where
  "line_cookies filter' line =
     List.map_filter (segment_cookie filter') (split_on CHR '';'' (TrimString line))"

text \<open>
  The cookie-octet range as the specification words it: \<open>0x21\<close> to \<open>0x7E\<close> without the
  double quote, the semicolon and the backslash.
\<close>

definition claimed_cookie_octet :: "char \<Rightarrow> bool" where
  "claimed_cookie_octet b =
     (0x21 \<le> byte b \<and> byte b \<le> 0x7E \<and> b \<noteq> CHR 0x22 \<and> b \<noteq> CHR '';'' \<and> b \<noteq> CHR 0x5C)"

text \<open>
  Request-cookie parsing as the specification words it, step by step: optional
  whitespace is spaces and tabs; the line is trimmed and split on \<open>;\<close>; each segment is
  trimmed and an empty one discarded; the segment is split on the first \<open>=\<close>, and a
  segment without \<open>=\<close> is discarded; the trimmed name must be a valid token; the value
  loses its double quotes when it is longer than one byte and begins and ends with
  one, and every remaining byte must be a cookie-octet; with a filter, only the
  cookies of that name are kept.
\<close>

definition isOWS :: "char \<Rightarrow> bool" where
  "isOWS b = (b = CHR '' '' \<or> b = CHR 0x09)"

definition trimOWS :: "string \<Rightarrow> string" where
  "trimOWS s = rev (dropWhile isOWS (rev (dropWhile isOWS s)))"

definition claimed_segment_cookie :: "string \<Rightarrow> string \<Rightarrow> Cookie option" where
  "claimed_segment_cookie filter' seg =
     (let part = trimOWS seg;
          name = trimOWS (takeWhile (\<lambda>c. c \<noteq> CHR ''='') part);
          raw = drop 1 (dropWhile (\<lambda>c. c \<noteq> CHR ''='') part);
          quoted = (length raw > 1 \<and> hd raw = CHR 0x22 \<and> last raw = CHR 0x22);
          val = (if quoted then butlast (tl raw) else raw)
      in if part = [] then None
         else if CHR ''='' \<notin> set part then None
         else if \<not> isCookieNameValid name then None
         else if \<not> (\<forall>b\<in>set val. claimed_cookie_octet b) then None
         else if filter' \<noteq> [] \<and> filter' \<noteq> name then None
         else Some (newCookie name val quoted))"

definition claimed_line_cookies :: "string \<Rightarrow> string \<Rightarrow> Cookie list" where
  "claimed_line_cookies filter' line =
     List.map_filter (claimed_segment_cookie filter') (split_on CHR '';'' (trimOWS line))"

text \<open>
  Domain names. A label is a piece of the name between dots; \<open>label_ok\<close> is the rule
  the code enforces on a label: at most 63 bytes, letters, digits and hyphens only,
  no hyphen at either end. \<open>cookie_domain_grammar\<close> is the name as a whole: not empty,
  at most 255 bytes, one leading dot set aside, every label but the last not empty,
  the last label possibly empty (a trailing dot), and a letter somewhere.
\<close>

definition label_char :: "char \<Rightarrow> bool" where
  "label_char c = (isLetter c \<or> isDigit c \<or> c = CHR ''-'')"

definition label_ok :: "string \<Rightarrow> bool" where
  "label_ok l = (length l \<le> 63 \<and> (\<forall>c\<in>set l. label_char c)
                 \<and> (l \<noteq> [] \<longrightarrow> hd l \<noteq> CHR ''-'' \<and> last l \<noteq> CHR ''-''))"

definition cookie_domain_grammar :: "string \<Rightarrow> bool" where
  "cookie_domain_grammar v =
     (v \<noteq> [] \<and> length v \<le> 255 \<and>
      (let t = (if hd v = CHR ''.'' then tl v else v); labels = split_on CHR ''.'' t in
         (\<forall>l\<in>set (butlast labels). l \<noteq> [] \<and> label_ok l)
         \<and> label_ok (last labels)
         \<and> (\<exists>c\<in>set t. isLetter c)))"

fun labels_ok :: "string list \<Rightarrow> bool" where
  "labels_ok [] = False"
| "labels_ok [l] = label_ok l"
| "labels_ok (l # ls) = (l \<noteq> [] \<and> label_ok l \<and> labels_ok ls)"

definition lastc :: "string \<Rightarrow> char" where
  "lastc p = (if p = [] then CHR ''.'' else last p)"

text \<open>
  The domain rule as the specification words it: letters, digits and hyphens only,
  labels of 1 to 63 bytes, at most 255 bytes in all, no hyphen next to a dot, a letter
  somewhere; or a literal IP address, of either family.
\<close>

fun hyphen_next_to_dot :: "string \<Rightarrow> bool" where
  "hyphen_next_to_dot (a # b # s) =
     (a = CHR ''-'' \<and> b = CHR ''.'' \<or> a = CHR ''.'' \<and> b = CHR ''-'' \<or> hyphen_next_to_dot (b # s))"
| "hyphen_next_to_dot s = False"

definition claimed_dns_name :: "string \<Rightarrow> bool" where
  "claimed_dns_name v =
     (let t = (if v \<noteq> [] \<and> hd v = CHR ''.'' then tl v else v) in
        (\<forall>l\<in>set (split_on CHR ''.'' t).
            1 \<le> length l \<and> length l \<le> 63 \<and> (\<forall>c\<in>set l. label_char c))
        \<and> length v \<le> 255
        \<and> \<not> hyphen_next_to_dot t
        \<and> (\<exists>c\<in>set t. isLetter c))"

definition claimed_validCookieDomain :: "string \<Rightarrow> bool" where
  "claimed_validCookieDomain v = (claimed_dns_name v \<or> ParseIP_nonnil v)"

section \<open>ParseSetCookie\<close>

lemma ParseSetCookie_None: "ParseSetCookie line = None"
proof (cases "ParseSetCookie line")
  case None then show ?thesis .
next
  case (Some r)
  then have False
    by (rule ParseSetCookie.raw_induct [where P = "\<lambda>_ _. False", rotated]) blast
  then show ?thesis ..
qed

text \<open>
  C1. The claim is that \<open>ParseSetCookie\<close> returns the blank-cookie error for the empty
  string, the missing-separator error for \<open>foo\<close> and the invalid-name error for
  \<open>=bar\<close>. The function as written calls itself and returns for none of the three.
\<close>

theorem ParseSetCookie_examples_do_not_return:
  "ParseSetCookie [] = None \<and> ParseSetCookie ''foo'' = None \<and> ParseSetCookie ''=bar'' = None"
  by (simp add: ParseSetCookie_None)

text \<open>
  C2. The claim is that every operation of the codec, \<open>ParseSetCookie\<close> among them,
  returns a value or an error for every input. \<open>ParseSetCookie\<close> returns for no input.
\<close>

theorem ParseSetCookie_returns_for_no_input:
  "\<not> (\<exists>r. ParseSetCookie line = Some r)"
  by (simp add: ParseSetCookie_None)

section \<open>The sanitizers\<close>

lemma keepValid_filter: "keepValid valid v buf = buf @ filter valid v"
  by (induction v arbitrary: buf) auto

lemma firstInvalid_None: "firstInvalid valid v = None \<longleftrightarrow> (\<forall>b\<in>set v. valid b)"
  by (induction v) auto

lemma firstInvalid_Some: "firstInvalid valid v = Some b \<Longrightarrow> \<not> valid b \<and> b \<in> set v"
  by (induction v) (auto split: if_splits)

lemma sanitizeOrWarn_fst: "fst (sanitizeOrWarn fieldName valid v) = filter valid v"
  by (auto simp: sanitizeOrWarn_def keepValid_filter firstInvalid_None split: option.splits)

text \<open>
  C9. \<open>sanitizeOrWarn\<close> always returns a string: the bytes of the input that satisfy
  the predicate, in their order. When every byte satisfies it the input comes back
  unchanged and nothing is logged; otherwise one line is logged, for an invalid byte
  of the input.
\<close>

theorem sanitizeOrWarn_strips:
  "fst (sanitizeOrWarn fieldName valid v) = filter valid v
   \<and> ((\<forall>b\<in>set v. valid b) \<longrightarrow> sanitizeOrWarn fieldName valid v = (v, []))
   \<and> (\<not> (\<forall>b\<in>set v. valid b) \<longrightarrow>
        (\<exists>b. b \<in> set v \<and> \<not> valid b
           \<and> sanitizeOrWarn fieldName valid v = (filter valid v, [(b, fieldName)])))"
proof (cases "firstInvalid valid v")
  case None
  then have all: "\<forall>b\<in>set v. valid b" by (simp add: firstInvalid_None)
  then have "filter valid v = v" by simp
  with None all show ?thesis by (simp add: sanitizeOrWarn_def)
next
  case (Some b)
  then have "\<not> valid b \<and> b \<in> set v" by (rule firstInvalid_Some)
  with Some show ?thesis by (auto simp: sanitizeOrWarn_def keepValid_filter)
qed

theorem sanitizeOrWarn_strips_witness:
  "fst (sanitizeOrWarn ''Cookie.Value'' validCookieValueByte ''a;b'')
     = filter validCookieValueByte ''a;b''
   \<and> sanitizeOrWarn ''Cookie.Value'' validCookieValueByte ''a;b''
     = (''ab'', [(CHR '';'', ''Cookie.Value'')])
   \<and> sanitizeOrWarn ''Cookie.Path'' validCookiePathByte ''/x'' = (''/x'', [])"
  using sanitizeOrWarn_strips [of "''Cookie.Value''" validCookieValueByte "''a;b''"]
    sanitizeOrWarn_strips [of "''Cookie.Path''" validCookiePathByte "''/x''"]
  by (auto simp: validCookieValueByte_def validCookiePathByte_def byte_def)

text \<open>
  C10. When value sanitization strips every byte of \<open>v\<close> (the empty \<open>v\<close> included),
  \<open>sanitizeCookieValue\<close> returns the empty string, with no double quotes around it,
  whatever \<open>quoted\<close> is.
\<close>

theorem sanitizeCookieValue_all_stripped:
  "filter validCookieValueByte v = [] \<Longrightarrow> fst (sanitizeCookieValue v quoted) = []"
  using sanitizeOrWarn_fst [of "''Cookie.Value''" validCookieValueByte v]
  by (auto simp: sanitizeCookieValue_def split: prod.splits)

theorem sanitizeCookieValue_all_stripped_witness:
  "filter validCookieValueByte [] = [] \<and> fst (sanitizeCookieValue [] True) = []
   \<and> filter validCookieValueByte [CHR '';'', CHR 0x22] = []
   \<and> fst (sanitizeCookieValue [CHR '';'', CHR 0x22] True) = []"
  using sanitizeCookieValue_all_stripped [of "[]" True]
    sanitizeCookieValue_all_stripped [of "[CHR '';'', CHR 0x22]" True]
  by (simp add: validCookieValueByte_def byte_def)

section \<open>The Domain attribute\<close>

lemma split_on_nonempty: "split_on sep s \<noteq> []"
  by (cases s) auto

lemma labels_ok_iff:
  "labels_ok ls \<longleftrightarrow> ls \<noteq> [] \<and> (\<forall>l\<in>set (butlast ls). l \<noteq> [] \<and> label_ok l) \<and> label_ok (last ls)"
  by (induction ls rule: labels_ok.induct) auto

lemma isLetter_not_punct: "isLetter c \<Longrightarrow> c \<noteq> CHR ''-'' \<and> c \<noteq> CHR ''.''"
  by (auto simp: isLetter_def byte_def)

lemma isDigit_not_punct: "isDigit c \<Longrightarrow> c \<noteq> CHR ''-'' \<and> c \<noteq> CHR ''.''"
  by (auto simp: isDigit_def byte_def)

lemma labels_ok_Cons: "ls \<noteq> [] \<Longrightarrow> labels_ok (l # ls) = (l \<noteq> [] \<and> label_ok l \<and> labels_ok ls)"
  by (cases ls) auto

lemma labels_ok_bad_char:
  "c \<in> set l \<Longrightarrow> \<not> label_char c \<Longrightarrow> \<not> labels_ok (l # ls)"
  by (cases ls) (auto simp: label_ok_def)

lemma labels_ok_bad_hd:
  "l \<noteq> [] \<Longrightarrow> hd l = CHR ''-'' \<Longrightarrow> \<not> labels_ok (l # ls)"
  by (cases ls) (auto simp: label_ok_def)

lemma loop_labels:
  "(\<forall>c\<in>set p. label_char c) \<Longrightarrow> (p \<noteq> [] \<longrightarrow> hd p \<noteq> CHR ''-'') \<Longrightarrow>
   isCookieDomainName_loop (lastc p) ok (length p) s
     \<longleftrightarrow> labels_ok ((p @ hd (split_on CHR ''.'' s)) # tl (split_on CHR ''.'' s))
         \<and> (ok \<or> (\<exists>c\<in>set s. isLetter c))"
proof (induction s arbitrary: p ok)
  case Nil
  then show ?case by (auto simp: lastc_def label_ok_def)
next
  case (Cons c s)
  let ?ls = "split_on CHR ''.'' s"
  have ne: "?ls \<noteq> []" by (rule split_on_nonempty)
  have pd: "\<forall>x\<in>set p. x \<noteq> CHR ''.''"
    using Cons.prems(1) by (auto simp: label_char_def dest: isLetter_not_punct isDigit_not_punct)
  consider (L) "isLetter c" | (D) "\<not> isLetter c" "isDigit c"
    | (H) "c = CHR ''-''" | (P) "c = CHR ''.''"
    | (O) "\<not> isLetter c" "\<not> isDigit c" "c \<noteq> CHR ''-''" "c \<noteq> CHR ''.''"
    by blast
  then show ?case
  proof cases
    case L
    have "isCookieDomainName_loop (lastc (p @ [c])) True (length (p @ [c])) s
      \<longleftrightarrow> labels_ok (((p @ [c]) @ hd ?ls) # tl ?ls) \<and> (True \<or> (\<exists>c\<in>set s. isLetter c))"
      using Cons.prems L isLetter_not_punct[OF L]
      by (intro Cons.IH) (auto simp: label_char_def hd_append)
    with L isLetter_not_punct[OF L] show ?thesis by (simp add: lastc_def)
  next
    case D
    have "isCookieDomainName_loop (lastc (p @ [c])) ok (length (p @ [c])) s
      \<longleftrightarrow> labels_ok (((p @ [c]) @ hd ?ls) # tl ?ls) \<and> (ok \<or> (\<exists>c\<in>set s. isLetter c))"
      using Cons.prems D isDigit_not_punct[OF D(2)]
      by (intro Cons.IH) (auto simp: label_char_def hd_append)
    with D isDigit_not_punct[OF D(2)] show ?thesis by (simp add: lastc_def)
  next
    case H
    show ?thesis
    proof (cases "p = []")
      case True
      have "\<not> labels_ok ((CHR ''-'' # hd ?ls) # tl ?ls)"
        by (rule labels_ok_bad_hd) auto
      with True H show ?thesis
        by (simp add: lastc_def isLetter_def isDigit_def byte_def)
    next
      case False
      have nl: "\<not> isLetter c" "\<not> isDigit c"
        using H by (auto simp: isLetter_def isDigit_def byte_def)
      have lp: "last p \<noteq> CHR ''.''" using False pd by auto
      have "isCookieDomainName_loop (lastc (p @ [c])) ok (length (p @ [c])) s
        \<longleftrightarrow> labels_ok (((p @ [c]) @ hd ?ls) # tl ?ls) \<and> (ok \<or> (\<exists>c\<in>set s. isLetter c))"
        using Cons.prems H False
        by (intro Cons.IH) (auto simp: label_char_def hd_append)
      with H False nl lp show ?thesis by (simp add: lastc_def)
    qed
  next
    case P
    have nl: "\<not> isLetter c" "\<not> isDigit c"
      using P by (auto simp: isLetter_def isDigit_def byte_def)
    have ih: "isCookieDomainName_loop (lastc []) ok (length ([]::string)) s
        \<longleftrightarrow> labels_ok (([] @ hd ?ls) # tl ?ls) \<and> (ok \<or> (\<exists>c\<in>set s. isLetter c))"
      by (intro Cons.IH) auto
    have lp: "p \<noteq> [] \<Longrightarrow> last p \<noteq> CHR ''.''" using pd by auto
    show ?thesis
    proof (cases "p = []")
      case True
      with P nl show ?thesis by (simp add: lastc_def labels_ok_Cons ne)
    next
      case False
      with P nl ih lp Cons.prems show ?thesis
        by (auto simp: lastc_def labels_ok_Cons ne label_ok_def)
    qed
  next
    case O
    have "\<not> labels_ok ((p @ c # hd ?ls) # tl ?ls)"
      by (rule labels_ok_bad_char[of c]) (use O in \<open>auto simp: label_char_def\<close>)
    with O show ?thesis by simp
  qed
qed

lemma isCookieDomainName_grammar: "isCookieDomainName v \<longleftrightarrow> cookie_domain_grammar v"
proof -
  have *: "isCookieDomainName_loop CHR ''.'' False 0 t
      \<longleftrightarrow> labels_ok (split_on CHR ''.'' t) \<and> (\<exists>c\<in>set t. isLetter c)" for t
    using loop_labels[of "[]" False t] split_on_nonempty[of "CHR ''.''" t]
    by (simp add: lastc_def)
  show ?thesis
  proof (cases v)
    case Nil
    then show ?thesis by (simp add: isCookieDomainName_def cookie_domain_grammar_def)
  next
    case (Cons a w)
    then show ?thesis
      by (simp add: isCookieDomainName_def cookie_domain_grammar_def * labels_ok_iff
          split_on_nonempty Let_def)
  qed
qed


lemma parseIPv4Fields_chars:
  "parseIPv4Fields s first prev val pos digLen \<Longrightarrow>
     (\<forall>c\<in>set s. isDigit c \<or> c = CHR ''.'') \<and> (pos < 3 \<longrightarrow> CHR ''.'' \<in> set s)"
  by (induction s first prev val pos digLen rule: parseIPv4Fields.induct)
     (auto split: if_splits)

lemma parseIPv4_chars:
  "parseIPv4 s \<Longrightarrow> (\<forall>c\<in>set s. isDigit c \<or> c = CHR ''.'') \<and> CHR ''.'' \<in> set s"
  using parseIPv4Fields_chars[of s True "CHR ''.''" 0 0 0] by (simp add: parseIPv4_def)

lemma ParseAddr_from_digits:
  "\<forall>c\<in>set r. isDigit c \<or> c = CHR ''.'' \<Longrightarrow> CHR ''.'' \<in> set r \<Longrightarrow>
   ParseAddr_from s r = (if parseIPv4 s then Some [] else None)"
  by (induction r) (auto simp: isDigit_def byte_def)

lemma ParseAddr_from_no_colon:
  "CHR '':'' \<notin> set r \<Longrightarrow> ParseAddr_from s r = Some z \<Longrightarrow> parseIPv4 s"
  by (induction r) (auto split: if_splits)

lemma ParseIP_no_colon:
  "(ParseIP_nonnil v \<and> CHR '':'' \<notin> set v) \<longleftrightarrow> parseIPv4 v"
proof
  assume "ParseIP_nonnil v \<and> CHR '':'' \<notin> set v"
  then show "parseIPv4 v"
    by (auto simp: ParseIP_nonnil_def split: option.splits dest: ParseAddr_from_no_colon)
next
  assume a: "parseIPv4 v"
  from parseIPv4_chars[OF a] have c: "\<forall>c\<in>set v. isDigit c \<or> c = CHR ''.''" "CHR ''.'' \<in> set v"
    by auto
  from c(1) have "CHR '':'' \<notin> set v" by (auto simp: isDigit_def byte_def)
  moreover have "ParseAddr_from v v = Some []"
    using ParseAddr_from_digits[OF c, of v] a by simp
  ultimately show "ParseIP_nonnil v \<and> CHR '':'' \<notin> set v"
    by (simp add: ParseIP_nonnil_def)
qed

lemma loop_no_colon:
  "isCookieDomainName_loop l ok n s \<Longrightarrow> CHR '':'' \<notin> set s"
  by (induction l ok n s rule: isCookieDomainName_loop.induct)
     (auto simp: isLetter_def isDigit_def byte_def split: if_splits)

lemma isCookieDomainName_no_colon:
  assumes "isCookieDomainName v"
  shows "CHR '':'' \<notin> set v"
proof -
  let ?t = "if v ! 0 = CHR ''.'' then drop 1 v else v"
  have "isCookieDomainName_loop CHR ''.'' False 0 ?t"
    using assms by (simp add: isCookieDomainName_def Let_def split: if_splits)
  then have "CHR '':'' \<notin> set ?t" by (rule loop_no_colon)
  then show ?thesis by (cases v) (auto split: if_splits)
qed

lemma colon_rejected: "CHR '':'' \<in> set v \<Longrightarrow> \<not> validCookieDomain v"
  using isCookieDomainName_no_colon[of v] by (auto simp: validCookieDomain_def)

lemmas dom_eval = validCookieDomain_def isCookieDomainName_def isLetter_def isDigit_def
  byte_def ParseIP_nonnil_def parseIPv4_def

text \<open>
  C4, as claimed: \<open>validCookieDomain\<close> accepts exactly the names of the restricted label
  grammar and the literal IPv4 and IPv6 addresses. It does not: \<open>::1\<close> is an IPv6
  address that \<open>net.ParseIP\<close> parses, and the test for a colon refuses it; \<open>a-\<close> has no
  hyphen next to a dot and is refused for ending in a hyphen; \<open>a.\<close> ends in an empty
  label and is accepted.
\<close>

theorem validCookieDomain_claim_counterexample:
  "claimed_validCookieDomain ''::1'' \<and> \<not> validCookieDomain ''::1''
   \<and> claimed_validCookieDomain ''a-'' \<and> \<not> validCookieDomain ''a-''
   \<and> \<not> claimed_validCookieDomain ''a.'' \<and> validCookieDomain ''a.''"
proof (intro conjI)
  show "claimed_validCookieDomain ''::1''"
    by (simp add: claimed_validCookieDomain_def ParseIP_nonnil_def parseIPv6_def Cut_def
        parseIPv6_loop.simps isHexDigit_def isDigit_def byte_def parseIPv6_finish_def)
  show "\<not> validCookieDomain ''::1''" by (simp add: dom_eval)
  show "claimed_validCookieDomain ''a-''"
    by (simp add: claimed_validCookieDomain_def claimed_dns_name_def label_char_def
        isLetter_def isDigit_def byte_def)
  show "\<not> validCookieDomain ''a-''" by (simp add: dom_eval)
  show "\<not> claimed_validCookieDomain ''a.''"
    by (simp add: claimed_validCookieDomain_def claimed_dns_name_def label_char_def
        isLetter_def isDigit_def byte_def ParseIP_nonnil_def parseIPv4_def)
  show "validCookieDomain ''a.''" by (simp add: dom_eval)
qed

text \<open>
  C4, amended: \<open>validCookieDomain\<close> accepts \<open>v\<close> exactly when \<open>v\<close> is a domain name of
  \<open>cookie_domain_grammar\<close> (not empty, at most 255 bytes, an optional leading dot,
  labels of letters, digits and hyphens of at most 63 bytes that neither begin nor end
  with a hyphen, no empty label except a last one after a trailing dot, at least one
  letter) or a dotted IPv4 address that \<open>net.ParseIP\<close> accepts. A string with a colon
  in it, so every IPv6 address, is refused.
\<close>

theorem validCookieDomain_accepts:
  "(validCookieDomain v \<longleftrightarrow> cookie_domain_grammar v \<or> parseIPv4 v)
   \<and> (CHR '':'' \<in> set v \<longrightarrow> \<not> validCookieDomain v)"
  using ParseIP_no_colon[of v] colon_rejected[of v]
  by (auto simp: validCookieDomain_def isCookieDomainName_grammar)

theorem validCookieDomain_accepts_witness:
  "validCookieDomain ''.example.com'' \<and> cookie_domain_grammar ''.example.com''
   \<and> validCookieDomain ''127.0.0.1'' \<and> parseIPv4 ''127.0.0.1''
   \<and> \<not> cookie_domain_grammar ''evil..com'' \<and> \<not> parseIPv4 ''evil..com''
   \<and> \<not> validCookieDomain ''evil..com''
   \<and> CHR '':'' \<in> set ''2001:db8::68'' \<and> \<not> validCookieDomain ''2001:db8::68''"
proof -
  have g: "cookie_domain_grammar ''.example.com''"
    by (simp add: cookie_domain_grammar_def label_ok_def label_char_def isLetter_def
        isDigit_def byte_def)
  have p: "parseIPv4 ''127.0.0.1''" by (simp add: parseIPv4_def isDigit_def byte_def)
  have n: "\<not> cookie_domain_grammar ''evil..com''" "\<not> parseIPv4 ''evil..com''"
    by (simp_all add: cookie_domain_grammar_def label_ok_def label_char_def isLetter_def
        isDigit_def byte_def parseIPv4_def)
  have c: "CHR '':'' \<in> set ''2001:db8::68''" by simp
  from validCookieDomain_accepts[of "''.example.com''"] g
    validCookieDomain_accepts[of "''127.0.0.1''"] p
    validCookieDomain_accepts[of "''evil..com''"] n
    validCookieDomain_accepts[of "''2001:db8::68''"] c
  show ?thesis by blast
qed

section \<open>Reading the Cookie header\<close>

lemma allValueBytes_iff: "allValueBytes raw \<longleftrightarrow> (\<forall>b\<in>set raw. validCookieValueByte b)"
  by (induction raw) auto

lemma strip_quotes: "take (length raw - Suc (Suc 0)) (drop (Suc 0) raw) = butlast (tl raw)"
  by (simp add: butlast_conv_take drop_Suc)

lemma parseCookieValue_quoted:
  "parseCookieValue raw True =
     (let quoted = (length raw > 1 \<and> hd raw = CHR 0x22 \<and> last raw = CHR 0x22);
          val = (if quoted then butlast (tl raw) else raw)
      in if \<forall>b\<in>set val. validCookieValueByte b then (val, quoted, True) else ([], quoted, False))"
proof (cases "length raw > 1")
  case True
  then have "raw \<noteq> []" by auto
  then have "raw ! 0 = hd raw" "raw ! (length raw - 1) = last raw"
    by (simp_all add: hd_conv_nth last_conv_nth)
  with True show ?thesis
    by (simp add: parseCookieValue_def allValueBytes_iff strip_quotes Let_def)
next
  case False
  then show ?thesis by (simp add: parseCookieValue_def allValueBytes_iff Let_def)
qed

lemma readCookies_body_segment:
  "readCookies_body part filter' cookies
     = cookies @ (case segment_cookie filter' part of None \<Rightarrow> [] | Some c \<Rightarrow> [c])"
  by (simp add: readCookies_body_def segment_cookie_def Cut_def parseCookieValue_quoted Let_def)

lemma split_on_Cut:
  "split_on sep s = (if sep \<in> set s
      then takeWhile (\<lambda>c. c \<noteq> sep) s # split_on sep (drop 1 (dropWhile (\<lambda>c. c \<noteq> sep) s))
      else [s])"
  by (induction s) auto

lemma segment_cookie_empty: "segment_cookie filter' [] = None"
  by (simp add: segment_cookie_def TrimString_def)

lemma map_filter_Cons:
  "List.map_filter f (x # xs) = (case f x of None \<Rightarrow> [] | Some y \<Rightarrow> [y]) @ List.map_filter f xs"
  by (simp add: List.map_filter_def split: option.splits)

lemma readCookies_line_segments:
  "readCookies_line line filter' cookies
     = cookies @ List.map_filter (segment_cookie filter') (split_on CHR '';'' line)"
proof (induction line filter' cookies rule: readCookies_line.induct)
  case (1 line filter' cookies)
  show ?case
  proof (cases "length line > 0")
    case False
    then show ?thesis
      by (simp add: readCookies_line.simps map_filter_Cons segment_cookie_empty List.map_filter_simps)
  next
    case True
    note ih = 1[OF True]
    show ?thesis
    proof (cases "CHR '';'' \<in> set line")
      case in_line: True
      show ?thesis
        using True ih in_line
        by (subst readCookies_line.simps, subst split_on_Cut)
           (simp add: readCookies_body_segment Cut_def map_filter_Cons split: option.splits)
    next
      case not_in: False
      then have d: "dropWhile (\<lambda>c. c \<noteq> CHR '';'') line = []" "takeWhile (\<lambda>c. c \<noteq> CHR '';'') line = line"
        by auto
      show ?thesis
        using True not_in
        by (subst readCookies_line.simps, subst split_on_Cut)
           (simp add: readCookies_body_segment Cut_def d map_filter_Cons readCookies_line.simps[of "[]"]
              List.map_filter_simps split: option.splits)
    qed
  qed
qed

lemma readCookies_lines_segments:
  "readCookies_lines lines filter' cookies
     = cookies @ concat (map (line_cookies filter') lines)"
  by (induction lines arbitrary: cookies) (auto simp: readCookies_line_segments line_cookies_def)

lemma readCookies_segments:
  "readCookies h filter' = Slice (concat (map (line_cookies filter') (header_lines h ''Cookie'')))"
  by (simp add: readCookies_def readCookies_lines_segments Let_def)

lemma segment_cookie_Some:
  "segment_cookie filter' seg = Some c \<Longrightarrow>
     isCookieNameValid (Name c) \<and> (filter' = [] \<or> Name c = filter')
     \<and> (\<forall>b\<in>set (Value c). validCookieValueByte b)"
  by (auto simp: segment_cookie_def Let_def newCookie_def split: if_splits)

lemma set_map_filter: "set (List.map_filter f xs) = {y. \<exists>x\<in>set xs. f x = Some y}"
  by (induction xs) (auto simp: List.map_filter_simps split: option.splits)

lemma in_readCookies:
  "c \<in> set (elems (readCookies h filter')) \<longleftrightarrow>
     (\<exists>line\<in>set (header_lines h ''Cookie''). \<exists>seg\<in>set (split_on CHR '';'' (TrimString line)).
        segment_cookie filter' seg = Some c)"
  by (simp add: readCookies_segments line_cookies_def set_map_filter)


lemma validCookieValueByte_range:
  "validCookieValueByte b \<longleftrightarrow>
     0x20 \<le> byte b \<and> byte b \<le> 0x7E \<and> b \<noteq> CHR 0x22 \<and> b \<noteq> CHR '';'' \<and> b \<noteq> CHR 0x5C"
  by (auto simp: validCookieValueByte_def)

lemmas eval_defs = readCookies_def header_lines_def readCookies_line.simps Cut_def TrimString_def
      isASCIISpace_def readCookies_body_def isCookieNameValid_def IndexFunc_def isNotToken_def
      separators_def byte_def parseCookieValue_def validCookieValueByte_def

lemmas seg_defs = segment_cookie_def TrimString_def isASCIISpace_def isCookieNameValid_def
   IndexFunc_def isNotToken_def separators_def byte_def validCookieValueByte_def Let_def

lemma length_map_filter:
  "length (List.map_filter f xs) = length (filter (\<lambda>x. f x \<noteq> None) xs)"
  by (simp add: List.map_filter_def)

lemma map_filter_concat:
  "List.map_filter f xs = concat (map (\<lambda>x. case f x of None \<Rightarrow> [] | Some y \<Rightarrow> [y]) xs)"
  by (induction xs) (simp_all add: List.map_filter_simps split: option.splits)

lemma case_if_list:
  "(case (if A \<and> B \<and> C \<and> D then Some x else None) of None \<Rightarrow> [] | Some c \<Rightarrow> [c])
     = (if A \<and> B \<and> C then (if D then [x] else []) else [])"
  by simp

lemmas claimed_defs = claimed_line_cookies_def claimed_segment_cookie_def trimOWS_def isOWS_def
  claimed_cookie_octet_def isCookieNameValid_def IndexFunc_def isNotToken_def separators_def
  byte_def Let_def List.map_filter_simps

text \<open>
  C3, as claimed: a segment whose value holds a byte outside \<open>0x21\<close> to \<open>0x7E\<close> is
  discarded. The space, \<open>0x20\<close>, is outside that range, and the line \<open>a=b c\<close> yields
  the cookie \<open>a\<close> with the value \<open>b c\<close>.
\<close>

theorem readCookies_space_counterexample:
  "readCookies [''Cookie'' \<mapsto> [''a=b c'']] [] = Slice [newCookie ''a'' ''b c'' False]
   \<and> \<not> (\<forall>b\<in>set ''b c''. claimed_cookie_octet b)"
  by (simp add: eval_defs claimed_cookie_octet_def)

text \<open>
  C3, amended: the range is \<open>0x20\<close> to \<open>0x7E\<close> without the double quote, the semicolon
  and the backslash. For every header and filter, the cookies returned are those of
  the segments of the lines, in order, where each segment that is not empty, has a
  valid name and passes the filter is treated so: its value part is the text after
  the first \<open>=\<close>; when the value part is longer than one byte and begins and ends with
  a double quote, the quotes are stripped and \<open>Quoted\<close> is set; when every remaining
  byte is in the range the segment gives exactly the cookie of that name, value and
  flag, and otherwise it gives no cookie.
\<close>

theorem readCookies_value_parsing:
  "elems (readCookies h filter') =
     concat (map (\<lambda>line. concat (map (\<lambda>seg.
         let part = TrimString seg;
             name = TrimString (takeWhile (\<lambda>c. c \<noteq> CHR ''='') part);
             raw = drop 1 (dropWhile (\<lambda>c. c \<noteq> CHR ''='') part);
             quoted = (length raw > 1 \<and> hd raw = CHR 0x22 \<and> last raw = CHR 0x22);
             val = (if quoted then butlast (tl raw) else raw)
         in if part \<noteq> [] \<and> isCookieNameValid name \<and> (filter' = [] \<or> filter' = name)
            then (if \<forall>b\<in>set val. 0x20 \<le> byte b \<and> byte b \<le> 0x7E
                       \<and> b \<noteq> CHR 0x22 \<and> b \<noteq> CHR '';'' \<and> b \<noteq> CHR 0x5C
                  then [newCookie name val quoted]
                  else [])
            else [])
       (split_on CHR '';'' (TrimString line)))) (header_lines h ''Cookie''))"
proof -
  have seg: "(case segment_cookie filter' seg of None \<Rightarrow> [] | Some c \<Rightarrow> [c]) =
      (let part = TrimString seg;
             name = TrimString (takeWhile (\<lambda>c. c \<noteq> CHR ''='') part);
             raw = drop 1 (dropWhile (\<lambda>c. c \<noteq> CHR ''='') part);
             quoted = (length raw > 1 \<and> hd raw = CHR 0x22 \<and> last raw = CHR 0x22);
             val = (if quoted then butlast (tl raw) else raw)
         in if part \<noteq> [] \<and> isCookieNameValid name \<and> (filter' = [] \<or> filter' = name)
            then (if \<forall>b\<in>set val. 0x20 \<le> byte b \<and> byte b \<le> 0x7E
                       \<and> b \<noteq> CHR 0x22 \<and> b \<noteq> CHR '';'' \<and> b \<noteq> CHR 0x5C
                  then [newCookie name val quoted]
                  else [])
            else [])" for seg
    by (simp only: segment_cookie_def Let_def validCookieValueByte_range case_if_list)
  have lc: "line_cookies filter' = (\<lambda>line. concat (map
          (\<lambda>seg. case segment_cookie filter' seg of None \<Rightarrow> [] | Some c \<Rightarrow> [c])
          (split_on CHR '';'' (TrimString line))))"
    by (rule ext) (simp add: line_cookies_def map_filter_concat)
  have "elems (readCookies h filter') =
      concat (map (\<lambda>line. concat (map
          (\<lambda>seg. case segment_cookie filter' seg of None \<Rightarrow> [] | Some c \<Rightarrow> [c])
          (split_on CHR '';'' (TrimString line)))) (header_lines h ''Cookie''))"
    by (simp add: readCookies_segments lc)
  then show ?thesis by (simp only: seg)
qed

theorem readCookies_value_parsing_witness:
  "elems (readCookies
      [''Cookie'' \<mapsto>
         [[CHR ''a'', CHR ''='', CHR ''b'', CHR '' '', CHR ''c'', CHR '';'',
          CHR '' '', CHR ''q'', CHR ''='', CHR 0x22, CHR ''x'', CHR '' '',
          CHR ''y'', CHR 0x22, CHR '' '', CHR '';'', CHR '' '', CHR ''n''],
          [CHR ''z'', CHR ''='', CHR ''b'', CHR 0x5C, CHR ''c'', CHR '';'',
          CHR '' '', CHR ''k'', CHR ''='', CHR ''v'']]] [])
     = [newCookie ''a'' ''b c'' False, newCookie ''q'' ''x y'' True, newCookie ''n'' [] False,
        newCookie ''k'' ''v'' False]"
proof -
  let ?l1 = "[CHR ''a'', CHR ''='', CHR ''b'', CHR '' '', CHR ''c'', CHR '';'',
          CHR '' '', CHR ''q'', CHR ''='', CHR 0x22, CHR ''x'', CHR '' '',
          CHR ''y'', CHR 0x22, CHR '' '', CHR '';'', CHR '' '', CHR ''n'']"
  let ?l2 = "[CHR ''z'', CHR ''='', CHR ''b'', CHR 0x5C, CHR ''c'', CHR '';'',
          CHR '' '', CHR ''k'', CHR ''='', CHR ''v'']"
  let ?h = "[''Cookie'' \<mapsto> [?l1, ?l2]] :: Header"
  have hl: "header_lines ?h ''Cookie'' = [?l1, ?l2]"
    by (simp add: header_lines_def)
  have s1: "split_on CHR '';'' (TrimString ?l1) =
      [''a=b c'', [CHR '' '', CHR ''q'', CHR ''='', CHR 0x22, CHR ''x'', CHR '' '', CHR ''y'',
                   CHR 0x22, CHR '' ''], '' n'']"
    by (simp add: TrimString_def isASCIISpace_def split_on_Cut del: split_on.simps)
  have s2: "split_on CHR '';'' (TrimString ?l2) =
      [[CHR ''z'', CHR ''='', CHR ''b'', CHR 0x5C, CHR ''c''], '' k=v'']"
    by (simp add: TrimString_def isASCIISpace_def split_on_Cut del: split_on.simps)
  show ?thesis
    by (subst readCookies_value_parsing[of ?h "[]"], subst hl, simp only: list.map s1 s2)
       (simp add: TrimString_def isASCIISpace_def isCookieNameValid_def IndexFunc_def
          isNotToken_def separators_def byte_def Let_def)
qed

text \<open>
  C5, as claimed: when every segment of the line is malformed the result is empty. By
  the steps of the specification the only segment of the line \<open>foo\<close> is malformed, for
  want of \<open>=\<close>, and so is that of \<open>a=b c\<close>, for its space; \<open>readCookies\<close> returns a
  cookie for each.
\<close>

theorem readCookies_malformed_counterexample:
  "claimed_line_cookies [] ''foo'' = []
   \<and> readCookies [''Cookie'' \<mapsto> [''foo'']] [] = Slice [newCookie ''foo'' [] False]
   \<and> claimed_line_cookies [] ''a=b c'' = []
   \<and> readCookies [''Cookie'' \<mapsto> [''a=b c'']] [] = Slice [newCookie ''a'' ''b c'' False]"
proof (intro conjI)
  show "claimed_line_cookies [] ''foo'' = []" by (simp add: claimed_defs)
  show "readCookies [''Cookie'' \<mapsto> [''foo'']] [] = Slice [newCookie ''foo'' [] False]"
    by (simp add: eval_defs)
  show "claimed_line_cookies [] ''a=b c'' = []" by (simp add: claimed_defs)
  show "readCookies [''Cookie'' \<mapsto> [''a=b c'']] [] = Slice [newCookie ''a'' ''b c'' False]"
    by (simp add: eval_defs)
qed

text \<open>
  C5, amended: \<open>readCookies\<close> returns a slice that is not nil for every header and
  filter, and its type has no error; without a \<open>Cookie\<close> line the slice is empty; a
  segment fails when \<open>segment_cookie\<close> gives it no cookie (it is empty, its name is not
  a valid token or not the filter's, or its value holds a byte that
  \<open>validCookieValueByte\<close> refuses), and a segment without \<open>=\<close> does not fail for that;
  when every segment of every line fails the slice is empty; and in general the
  cookies returned are those of the segments that do not fail, a failing segment being
  dropped alone.
\<close>

theorem readCookies_never_fails:
  "(\<exists>cookies. readCookies h filter' = Slice cookies)
   \<and> (header_lines h ''Cookie'' = [] \<longrightarrow> readCookies h filter' = Slice [])
   \<and> ((\<forall>line\<in>set (header_lines h ''Cookie'').
          \<forall>seg\<in>set (split_on CHR '';'' (TrimString line)). segment_cookie filter' seg = None)
        \<longrightarrow> readCookies h filter' = Slice [])
   \<and> set (elems (readCookies h filter')) =
        {c. \<exists>line\<in>set (header_lines h ''Cookie'').
              \<exists>seg\<in>set (split_on CHR '';'' (TrimString line)). segment_cookie filter' seg = Some c}"
proof (intro conjI impI)
  show "\<exists>cookies. readCookies h filter' = Slice cookies" by (simp add: readCookies_segments)
  show "readCookies h filter' = Slice []" if "header_lines h ''Cookie'' = []"
    using that by (simp add: readCookies_def)
  show "readCookies h filter' = Slice []"
    if "\<forall>line\<in>set (header_lines h ''Cookie'').
          \<forall>seg\<in>set (split_on CHR '';'' (TrimString line)). segment_cookie filter' seg = None"
  proof -
    have "c \<notin> set (elems (readCookies h filter'))" for c
      using that by (simp add: in_readCookies)
    then have "elems (readCookies h filter') = []"
      by (cases "elems (readCookies h filter')") auto
    then show ?thesis by (simp add: readCookies_segments)
  qed
  show "set (elems (readCookies h filter')) =
        {c. \<exists>line\<in>set (header_lines h ''Cookie'').
              \<exists>seg\<in>set (split_on CHR '';'' (TrimString line)). segment_cookie filter' seg = Some c}"
    by (rule set_eqI) (simp add: in_readCookies)
qed

theorem readCookies_never_fails_witness:
  "readCookies Map.empty [] = Slice []
   \<and> readCookies [''Cookie'' \<mapsto> [''; ; ;'']] [] = Slice []
   \<and> set (elems (readCookies [''Cookie'' \<mapsto> [''a=1; =2; b=3'']] []))
        = {newCookie ''a'' ''1'' False, newCookie ''b'' ''3'' False}"
proof -
  let ?h1 = "Map.empty :: Header"
  let ?h2 = "[''Cookie'' \<mapsto> [''; ; ;'']] :: Header"
  have a: "header_lines ?h1 ''Cookie'' = []" by (simp add: header_lines_def)
  have b: "\<forall>line\<in>set (header_lines ?h2 ''Cookie'').
          \<forall>seg\<in>set (split_on CHR '';'' (TrimString line)). segment_cookie [] seg = None"
    by (simp add: header_lines_def seg_defs)
  have c: "set (elems (readCookies [''Cookie'' \<mapsto> [''a=1; =2; b=3'']] []))
        = {newCookie ''a'' ''1'' False, newCookie ''b'' ''3'' False}"
    by (simp add: eval_defs) 
  note t1 = readCookies_never_fails[of ?h1 "[]"]
  note t2 = readCookies_never_fails[of ?h2 "[]"]
  have 1: "readCookies ?h1 [] = Slice []"
    by (rule mp[OF t1[THEN conjunct2, THEN conjunct1] a])
  have 2: "readCookies ?h2 [] = Slice []"
    by (rule mp[OF t2[THEN conjunct2, THEN conjunct2, THEN conjunct1] b])
  show ?thesis by (intro conjI) (rule 1, rule 2, rule c)
qed

text \<open>
  C6. Every cookie that \<open>readCookies\<close> returns has a name of which
  \<open>isCookieNameValid\<close> holds, and that name is not empty.
\<close>

theorem readCookies_names_valid:
  "c \<in> set (elems (readCookies h filter')) \<Longrightarrow> isCookieNameValid (Name c) \<and> Name c \<noteq> []"
proof -
  assume "c \<in> set (elems (readCookies h filter'))"
  then obtain seg where "segment_cookie filter' seg = Some c"
    by (auto simp: in_readCookies)
  then have v: "isCookieNameValid (Name c)" by (simp add: segment_cookie_Some)
  then have "Name c \<noteq> []" by (auto simp: isCookieNameValid_def)
  with v show ?thesis by simp
qed

theorem readCookies_names_valid_witness:
  "newCookie ''sid'' ''1'' False \<in> set (elems (readCookies [''Cookie'' \<mapsto> [''a b=0; sid=1; =2'']] []))
   \<and> isCookieNameValid (Name (newCookie ''sid'' ''1'' False))
   \<and> readCookies [''Cookie'' \<mapsto> [''a b=0; sid=1; =2'']] [] = Slice [newCookie ''sid'' ''1'' False]"
proof -
  have e: "readCookies [''Cookie'' \<mapsto> [''a b=0; sid=1; =2'']] [] = Slice [newCookie ''sid'' ''1'' False]"
    by (simp add: eval_defs)
  then have m: "newCookie ''sid'' ''1'' False \<in> set (elems (readCookies [''Cookie'' \<mapsto> [''a b=0; sid=1; =2'']] []))"
    by simp
  show ?thesis by (intro conjI) (rule m, rule readCookies_names_valid[OF m, THEN conjunct1], rule e)
qed

text \<open>
  C8, as claimed: one cookie for each surviving segment. By the steps of the
  specification the line \<open>c; a=3\<close> has one surviving segment, \<open>a=3\<close>, and the line
  \<open>a=b c\<close> has none; \<open>readCookies\<close> returns two cookies for the first and one for the
  second.
\<close>

theorem readCookies_surviving_counterexample:
  "claimed_line_cookies [] ''c; a=3'' = [newCookie ''a'' ''3'' False]
   \<and> elems (readCookies [''Cookie'' \<mapsto> [''c; a=3'']] [])
       = [newCookie ''c'' [] False, newCookie ''a'' ''3'' False]
   \<and> claimed_line_cookies [] ''a=b c'' = []
   \<and> elems (readCookies [''Cookie'' \<mapsto> [''a=b c'']] []) = [newCookie ''a'' ''b c'' False]"
proof (intro conjI)
  show "claimed_line_cookies [] ''c; a=3'' = [newCookie ''a'' ''3'' False]"
    by (simp add: claimed_defs)
  show "elems (readCookies [''Cookie'' \<mapsto> [''c; a=3'']] [])
       = [newCookie ''c'' [] False, newCookie ''a'' ''3'' False]"
    by (simp add: eval_defs)
  show "claimed_line_cookies [] ''a=b c'' = []" by (simp add: claimed_defs)
  show "elems (readCookies [''Cookie'' \<mapsto> [''a=b c'']] []) = [newCookie ''a'' ''b c'' False]"
    by (simp add: eval_defs)
qed

text \<open>
  C8, amended: a segment survives when \<open>segment_cookie\<close> gives it a cookie, so a
  segment without \<open>=\<close> survives with an empty value and a value may hold spaces. The
  cookies \<open>readCookies\<close> returns are, line after line and segment after segment from
  left to right, the cookies of the surviving segments: one for each, none merged or
  removed for having the name of another; and with a filter that is not empty every
  cookie returned has exactly that name.
\<close>

theorem readCookies_order_duplicates_filter:
  "elems (readCookies h filter')
     = concat (map (\<lambda>line. List.map_filter (segment_cookie filter')
                              (split_on CHR '';'' (TrimString line)))
                   (header_lines h ''Cookie''))
   \<and> length (elems (readCookies h filter'))
     = sum_list (map (\<lambda>line. length (filter (\<lambda>seg. segment_cookie filter' seg \<noteq> None)
                                           (split_on CHR '';'' (TrimString line))))
                     (header_lines h ''Cookie''))
   \<and> (filter' \<noteq> [] \<longrightarrow> (\<forall>c\<in>set (elems (readCookies h filter')). Name c = filter'))"
proof (intro conjI impI ballI)
  have l: "line_cookies filter' = (\<lambda>line. List.map_filter (segment_cookie filter')
                              (split_on CHR '';'' (TrimString line)))"
    by (rule ext) (simp add: line_cookies_def)
  show e: "elems (readCookies h filter')
     = concat (map (\<lambda>line. List.map_filter (segment_cookie filter')
                              (split_on CHR '';'' (TrimString line)))
                   (header_lines h ''Cookie''))"
    by (simp add: readCookies_segments l)
  show "length (elems (readCookies h filter'))
     = sum_list (map (\<lambda>line. length (filter (\<lambda>seg. segment_cookie filter' seg \<noteq> None)
                                           (split_on CHR '';'' (TrimString line))))
                     (header_lines h ''Cookie''))"
    by (simp add: e length_concat comp_def length_map_filter)
  show "Name c = filter'" if "filter' \<noteq> []" "c \<in> set (elems (readCookies h filter'))" for c
    using that by (auto simp: in_readCookies dest!: segment_cookie_Some)
qed

theorem readCookies_order_duplicates_filter_witness:
  "elems (readCookies [''Cookie'' \<mapsto> [''a=1; b=2; a=1'', ''c; a=3'']] [])
     = [newCookie ''a'' ''1'' False, newCookie ''b'' ''2'' False, newCookie ''a'' ''1'' False,
        newCookie ''c'' [] False, newCookie ''a'' ''3'' False]
   \<and> elems (readCookies [''Cookie'' \<mapsto> [''a=1; b=2; a=1'', ''c; a=3'']] ''a'')
     = [newCookie ''a'' ''1'' False, newCookie ''a'' ''1'' False, newCookie ''a'' ''3'' False]
   \<and> Name (hd (elems (readCookies [''Cookie'' \<mapsto> [''a=1; b=2; a=1'', ''c; a=3'']] ''a'')))
       = ''a''"
proof -
  let ?h = "[''Cookie'' \<mapsto> [''a=1; b=2; a=1'', ''c; a=3'']] :: Header"
  have hl: "header_lines ?h ''Cookie'' = [''a=1; b=2; a=1'', ''c; a=3'']"
    by (simp add: header_lines_def)
  have 1: "elems (readCookies ?h []) = [newCookie ''a'' ''1'' False, newCookie ''b'' ''2'' False,
        newCookie ''a'' ''1'' False, newCookie ''c'' [] False, newCookie ''a'' ''3'' False]"
    by (subst readCookies_order_duplicates_filter[of ?h "[]", THEN conjunct1], subst hl)
       (simp add: seg_defs)
  have 2: "elems (readCookies ?h ''a'')
     = [newCookie ''a'' ''1'' False, newCookie ''a'' ''1'' False, newCookie ''a'' ''3'' False]"
    by (subst readCookies_order_duplicates_filter[of ?h "''a''", THEN conjunct1], subst hl)
       (simp add: seg_defs)
  have 3: "\<forall>c\<in>set (elems (readCookies ?h ''a'')). Name c = ''a''"
    by (rule mp[OF readCookies_order_duplicates_filter[of ?h "''a''", THEN conjunct2, THEN conjunct2]])
       simp
  have 4: "Name (hd (elems (readCookies ?h ''a''))) = ''a''"
    using 3 by (simp add: 2)
  show ?thesis by (intro conjI) (rule 1, rule 2, rule 4)
qed


section \<open>Serialising and re-parsing a value\<close>

text \<open>
  C7. The value \<open>hello, world\<close>, serialised with \<open>quoted = false\<close>, comes out wrapped in
  double quotes (it holds a comma and a space) with nothing logged; parsing that text
  as a cookie-value with double quotes allowed succeeds, gives back \<open>hello, world\<close> and
  reports that the value was quoted.
\<close>

theorem hello_world_roundtrip:
  "sanitizeCookieValue ''hello, world'' False = ([CHR 0x22] @ ''hello, world'' @ [CHR 0x22], [])
   \<and> parseCookieValue (fst (sanitizeCookieValue ''hello, world'' False)) True
       = (''hello, world'', True, True)"
  by (simp add: sanitizeCookieValue_def sanitizeOrWarn_def parseCookieValue_def
      validCookieValueByte_def byte_def ContainsAny_def)


end
